theory Spec2Isabelle
  imports Complex_Main "HOL-Library.AList" "HOL-Library.Product_Lexorder"
begin

section \<open>Cells, series and frames\<close>

text \<open>
  The scripts work on one pandas DataFrame of float columns. A cell is a finite number,
  an infinity or NaN; NaN is also the marker of a missing value (\<open>isna\<close>), and of a
  missing timestamp. Finite arithmetic is exact here: rounding, overflow and the sign of
  zero are outside this development.
\<close>

datatype cell = Num real | Infty bool | NaN

type_synonym series = "cell list"

datatype error = KeyError "string list" | ValueError string | OtherError string

text \<open>
  A frame has its row labels and its columns in order, each column a name and the values
  of that column by position.
\<close>

record table =
  index :: "nat list"
  columns :: "(string \<times> series) list"

definition nrows :: "table \<Rightarrow> nat" where
  "nrows df = length (index df)"

definition wf_table :: "table \<Rightarrow> bool" where
  "wf_table df \<longleftrightarrow> list_all (\<lambda>cv. length (snd cv) = nrows df) (columns df)"

subsection \<open>Float arithmetic on cells\<close>

fun cell_neg :: "cell \<Rightarrow> cell" where
  "cell_neg (Num a) = Num (- a)"
| "cell_neg (Infty s) = Infty (\<not> s)"
| "cell_neg NaN = NaN"

fun cell_add :: "cell \<Rightarrow> cell \<Rightarrow> cell" where
  "cell_add (Num a) (Num b) = Num (a + b)"
| "cell_add (Num a) (Infty s) = Infty s"
| "cell_add (Infty s) (Num b) = Infty s"
| "cell_add (Infty s) (Infty s') = (if s = s' then Infty s else NaN)"
| "cell_add NaN _ = NaN"
| "cell_add _ NaN = NaN"

definition cell_sub :: "cell \<Rightarrow> cell \<Rightarrow> cell" where
  "cell_sub a b = cell_add a (cell_neg b)"

fun cell_mul :: "cell \<Rightarrow> cell \<Rightarrow> cell" where
  "cell_mul (Num a) (Num b) = Num (a * b)"
| "cell_mul (Num a) (Infty s) = (if a = 0 then NaN else Infty (s = (0 < a)))"
| "cell_mul (Infty s) (Num b) = (if b = 0 then NaN else Infty (s = (0 < b)))"
| "cell_mul (Infty s) (Infty s') = Infty (s = s')"
| "cell_mul NaN _ = NaN"
| "cell_mul _ NaN = NaN"

fun cell_div :: "cell \<Rightarrow> cell \<Rightarrow> cell" where
  "cell_div (Num a) (Num b) =
     (if b = 0 then (if a = 0 then NaN else Infty (0 < a)) else Num (a / b))"
| "cell_div (Num a) (Infty s) = Num 0"
| "cell_div (Infty s) (Num b) = Infty (s = (0 \<le> b))"
| "cell_div (Infty s) (Infty s') = NaN"
| "cell_div NaN _ = NaN"
| "cell_div _ NaN = NaN"

definition isna :: "cell \<Rightarrow> bool" where
  "isna c \<longleftrightarrow> c = NaN"

text \<open>Two series of one frame share their index, so the operators work by position.\<close>

definition series_op :: "(cell \<Rightarrow> cell \<Rightarrow> cell) \<Rightarrow> series \<Rightarrow> series \<Rightarrow> series" where
  "series_op f xs ys = map (\<lambda>(x, y). f x y) (zip xs ys)"

definition scalar_op :: "(cell \<Rightarrow> cell \<Rightarrow> cell) \<Rightarrow> series \<Rightarrow> cell \<Rightarrow> series" where
  "scalar_op f xs c = map (\<lambda>x. f x c) xs"

text \<open>
  \<open>Series.shift(periods)\<close>: the values move down by \<open>periods\<close> positions (up when
  negative) and the positions left empty hold NaN.
\<close>

definition shift :: "int \<Rightarrow> series \<Rightarrow> series" where
  "shift periods xs =
     (let n = length xs in
      if 0 \<le> periods
      then (let k = min (nat periods) n in replicate k NaN @ take (n - k) xs)
      else (let k = min (nat (- periods)) n in drop k xs @ replicate k NaN))"

subsection \<open>Column names\<close>

text \<open>The decimal text of an integer, as an f-string prints it.\<close>

definition digit_char :: "nat \<Rightarrow> char" where
  "digit_char d = char_of (48 + d)"

fun str_nat :: "nat \<Rightarrow> string" where
  "str_nat n = (if n < 10 then [digit_char n] else str_nat (n div 10) @ [digit_char (n mod 10)])"

declare str_nat.simps [simp del]

definition str_int :: "int \<Rightarrow> string" where
  "str_int i = (if i < 0 then CHR ''-'' # str_nat (nat (- i)) else str_nat (nat i))"

definition range_py :: "int \<Rightarrow> nat list" where
  "range_py n = [0..<nat n]"

subsection \<open>Frame operations\<close>

definition get_col :: "table \<Rightarrow> string \<Rightarrow> error + series" where
  "get_col df c = (case map_of (columns df) c of None \<Rightarrow> Inl (KeyError [c]) | Some v \<Rightarrow> Inr v)"

text \<open>\<open>df[c] = v\<close>: an existing column is replaced where it stands, a new one goes last.\<close>

definition set_col :: "table \<Rightarrow> string \<Rightarrow> series \<Rightarrow> table" where
  "set_col df c v = df\<lparr>columns := AList.update c v (columns df)\<rparr>"

definition take_rows :: "nat list \<Rightarrow> table \<Rightarrow> table" where
  "take_rows p df =
     \<lparr>index = map ((!) (index df)) p,
      columns = map (\<lambda>(c, v). (c, map ((!) v) p)) (columns df)\<rparr>"

definition reset_index :: "table \<Rightarrow> table" where
  "reset_index df = df\<lparr>index := [0..<nrows df]\<rparr>"

text \<open>
  \<open>sort_values(by)\<close> with the default arguments: the rows with a missing key go last,
  in their order; the others are ordered by an argsort of their keys whose algorithm
  (\<open>kind='quicksort'\<close>) belongs to the library and is a parameter here. What the library
  promises of it is \<open>argsort_spec\<close>: the positions, each once, with the keys ascending;
  the order of equal keys is not part of it.
\<close>

definition key_of :: "cell \<Rightarrow> int \<times> real" where
  "key_of c = (case c of Num r \<Rightarrow> (0, r) | Infty s \<Rightarrow> (if s then 1 else - 1, 0) | NaN \<Rightarrow> (2, 0))"


definition nargsort :: "(series \<Rightarrow> nat list) \<Rightarrow> series \<Rightarrow> nat list" where
  "nargsort argsort items =
     (let idx = [0..<length items];
          non_nan_idx = filter (\<lambda>i. \<not> isna (items ! i)) idx;
          nan_idx = filter (\<lambda>i. isna (items ! i)) idx;
          non_nans = map ((!) items) non_nan_idx
      in map ((!) non_nan_idx) (argsort non_nans) @ nan_idx)"

definition sort_values :: "(series \<Rightarrow> nat list) \<Rightarrow> string \<Rightarrow> table \<Rightarrow> error + table" where
  "sort_values argsort by df =
     (case get_col df by of Inl e \<Rightarrow> Inl e
      | Inr k \<Rightarrow> Inr (take_rows (nargsort argsort k) df))"

text \<open>\<open>dropna()\<close> keeps the rows with no missing value in any column, under their labels.\<close>

definition row_complete :: "table \<Rightarrow> nat \<Rightarrow> bool" where
  "row_complete df r = list_all (\<lambda>cv. \<not> isna (snd cv ! r)) (columns df)"

definition dropna :: "table \<Rightarrow> table" where
  "dropna df = take_rows (filter (row_complete df) [0..<nrows df]) df"

definition fillna :: "cell \<Rightarrow> table \<Rightarrow> table" where
  "fillna val df =
     df\<lparr>columns := map (\<lambda>(c, v). (c, map (\<lambda>x. if isna x then val else x) v)) (columns df)\<rparr>"

text \<open>\<open>df[names]\<close>: the columns asked for, or a KeyError naming the absent ones.\<close>

definition select_cols :: "table \<Rightarrow> string list \<Rightarrow> error + series list" where
  "select_cols df names =
     (case those (map (map_of (columns df)) names) of
        Some vs \<Rightarrow> Inr vs
      | None \<Rightarrow> Inl (KeyError (filter (\<lambda>c. map_of (columns df) c = None) names)))"

text \<open>\<open>sum(axis=1)\<close> and \<open>mean(axis=1)\<close> skip the missing values of a row.\<close>

definition row_at :: "series list \<Rightarrow> nat \<Rightarrow> cell list" where
  "row_at cols t = map (\<lambda>v. v ! t) cols"

definition nansum :: "cell list \<Rightarrow> cell" where
  "nansum xs = foldl cell_add (Num 0) (map (\<lambda>x. if isna x then Num 0 else x) xs)"

definition nanmean :: "cell list \<Rightarrow> cell" where
  "nanmean xs =
     (let count = length (filter (\<lambda>x. \<not> isna x) xs)
      in if count = 0 then NaN else cell_div (nansum xs) (Num (real count)))"

section \<open>data_preprocessing.py\<close>


section \<open>ofi_calculation.py\<close>

definition reconstruct_price :: "table \<Rightarrow> nat \<Rightarrow> string \<Rightarrow> error + series" where
  "reconstruct_price df level side =
     (let col_name = side @ ''s_distance_'' @ str_nat level in
      case get_col df ''midpoint'' of Inl e \<Rightarrow> Inl e
      | Inr m \<Rightarrow>
     (case get_col df col_name of Inl e \<Rightarrow> Inl e
      | Inr d \<Rightarrow> Inr (series_op cell_add m d)))"

definition reconstruct_size :: "table \<Rightarrow> nat \<Rightarrow> string \<Rightarrow> error + series" where
  "reconstruct_size df level side =
     (let col_name = side @ ''s_notional_'' @ str_nat level in get_col df col_name)"

definition ofi_level_name :: "nat \<Rightarrow> string" where
  "ofi_level_name level = ''OFI_level_'' @ str_nat level"

text \<open>The right-hand side of the assignment in the loop, from the four series of a level.\<close>

definition ofi_formula :: "series \<Rightarrow> series \<Rightarrow> series \<Rightarrow> series \<Rightarrow> series" where
  "ofi_formula bid_price ask_price bid_size ask_size =
     (let bid_price_prev = shift 1 bid_price;
          ask_price_prev = shift 1 ask_price;
          bid_size_prev = shift 1 bid_size;
          ask_size_prev = shift 1 ask_size
      in series_op cell_sub
           (scalar_op cell_div
              (series_op cell_mul (series_op cell_sub bid_price bid_price_prev)
                                  (series_op cell_add bid_size bid_size_prev)) (Num 2))
           (scalar_op cell_div
              (series_op cell_mul (series_op cell_sub ask_price ask_price_prev)
                                  (series_op cell_add ask_size ask_size_prev)) (Num 2)))"

definition ofi_level :: "table \<Rightarrow> nat \<Rightarrow> error + series" where
  "ofi_level df level =
     (case reconstruct_price df level ''bid'' of Inl e \<Rightarrow> Inl e
      | Inr bid_price \<Rightarrow>
     (case reconstruct_price df level ''ask'' of Inl e \<Rightarrow> Inl e
      | Inr ask_price \<Rightarrow>
     (case reconstruct_size df level ''bid'' of Inl e \<Rightarrow> Inl e
      | Inr bid_size \<Rightarrow>
     (case reconstruct_size df level ''ask'' of Inl e \<Rightarrow> Inl e
      | Inr ask_size \<Rightarrow> Inr (ofi_formula bid_price ask_price bid_size ask_size)))))"

text \<open>
  The functions below change the caller's frame in place. A result \<open>Inl (e, df')\<close> is the
  exception \<open>e\<close> with the frame left as \<open>df'\<close>; \<open>Inr df'\<close> is the frame returned.
\<close>

fun ofi_levels :: "table \<Rightarrow> nat list \<Rightarrow> (error \<times> table) + table" where
  "ofi_levels df [] = Inr df"
| "ofi_levels df (level # rest) =
     (case ofi_level df level of Inl e \<Rightarrow> Inl (e, df)
      | Inr v \<Rightarrow> ofi_levels (set_col df (ofi_level_name level) v) rest)"

definition compute_ofi_for_btc ::
  "(series \<Rightarrow> nat list) \<Rightarrow> table \<Rightarrow> int \<Rightarrow> (error \<times> table) + table" where
  "compute_ofi_for_btc argsort df max_levels =
     (case sort_values argsort ''system_time'' df of Inl e \<Rightarrow> Inl (e, df)
      | Inr df1 \<Rightarrow>
     (case ofi_levels (reset_index df1) (range_py max_levels) of Inl r \<Rightarrow> Inl r
      | Inr df2 \<Rightarrow> Inr (fillna (Num 0) df2)))"

text \<open>The projection on the first principal component is the library's, a parameter.\<close>

definition integrate_multi_level_ofi ::
  "(series list \<Rightarrow> error + series) \<Rightarrow> table \<Rightarrow> int \<Rightarrow> string \<Rightarrow> (error \<times> table) + table" where
  "integrate_multi_level_ofi pca df max_levels method =
     (let ofi_cols = map ofi_level_name (range_py max_levels) in
      case select_cols df ofi_cols of Inl e \<Rightarrow> Inl (e, df)
      | Inr ofi_matrix \<Rightarrow>
          if method = ''PCA'' then
            (case pca ofi_matrix of Inl e \<Rightarrow> Inl (e, df)
             | Inr ofi_agg \<Rightarrow> Inr (set_col df ''OFI_aggregated'' ofi_agg))
          else if method = ''sum'' then
            Inr (set_col df ''OFI_aggregated''
                   (map (\<lambda>t. nansum (row_at ofi_matrix t)) [0..<nrows df]))
          else if method = ''avg'' then
            Inr (set_col df ''OFI_aggregated''
                   (map (\<lambda>t. nanmean (row_at ofi_matrix t)) [0..<nrows df]))
          else Inl (ValueError ''Unknown integration method. Choose from ['PCA','sum','avg'].'', df))"

section \<open>cross_impact_analysis.py\<close>

definition compute_short_term_returns :: "table \<Rightarrow> int \<Rightarrow> (error \<times> table) + table" where
  "compute_short_term_returns df horizon =
     (case get_col df ''midpoint'' of Inl e \<Rightarrow> Inl (e, df)
      | Inr m \<Rightarrow>
          Inr (dropna (set_col df (''future_ret_'' @ str_int horizon)
                 (scalar_op cell_sub (series_op cell_div (shift (- horizon) m) m) (Num 1)))))"

section \<open>Auxiliary definitions\<close>

text \<open>Reading a decimal text back, to tell the names of two levels apart.\<close>

definition digit_val :: "char \<Rightarrow> nat" where
  "digit_val c = of_char c - 48"

fun digits_val :: "nat \<Rightarrow> string \<Rightarrow> nat" where
  "digits_val acc [] = acc"
| "digits_val acc (c # cs) = digits_val (10 * acc + digit_val c) cs"

text \<open>
  Two argsorts that meet \<open>argsort_spec\<close>: insertion sort over the positions in order,
  which keeps equal keys in their order, and over the positions backwards, which
  reverses them.
\<close>

definition stable_argsort :: "series \<Rightarrow> nat list" where
  "stable_argsort ks = sort_key (\<lambda>i. key_of (ks ! i)) [0..<length ks]"


text \<open>A book of three snapshots out of time order, with one level.\<close>

definition book3 :: table where
  "book3 =
     \<lparr>index = [0, 1, 2],
      columns =
        [(''system_time'', [Num 3, Num 1, Num 2]),
         (''midpoint'', [Num 100, Num 101, Num 99]),
         (''bids_distance_0'', [Num (- 1), Num (- 1), Num (- 2)]),
         (''asks_distance_0'', [Num 1, Num 1, Num 2]),
         (''bids_notional_0'', [Num 10, Num 20, Num 30]),
         (''asks_notional_0'', [Num 5, Num 5, Num 5])]\<rparr>"


definition book3_ofi :: table where
  "book3_ofi =
     \<lparr>index = [0, 1, 2],
      columns =
        [(''system_time'', [Num 1, Num 2, Num 3]),
         (''midpoint'', [Num 101, Num 99, Num 100]),
         (''bids_distance_0'', [Num (- 1), Num (- 2), Num (- 1)]),
         (''asks_distance_0'', [Num 1, Num 2, Num 1]),
         (''bids_notional_0'', [Num 20, Num 30, Num 10]),
         (''asks_notional_0'', [Num 5, Num 5, Num 5]),
         (''OFI_level_0'', [Num 0, Num (- 70), Num 40])]\<rparr>"





text \<open>A stand-in for the projection, which raises: no example below selects \<open>PCA\<close>.\<close>

definition no_pca :: "series list \<Rightarrow> error + series" where
  "no_pca ofi_matrix = Inl (OtherError ''PCA'')"

text \<open>The levels 0 and 1 of one row, level 0 missing.\<close>

definition two_levels :: table where
  "two_levels =
     \<lparr>index = [0],
      columns = [(''OFI_level_0'', [NaN]), (''OFI_level_1'', [Num 3])]\<rparr>"

definition two_levels_agg :: table where
  "two_levels_agg =
     \<lparr>index = [0],
      columns = [(''OFI_level_0'', [NaN]), (''OFI_level_1'', [Num 3]),
                 (''OFI_aggregated'', [Num 3])]\<rparr>"

text \<open>Two levels over two rows, and what \<open>sum\<close> and \<open>avg\<close> add to them.\<close>

definition levels2 :: table where
  "levels2 =
     \<lparr>index = [0, 1],
      columns = [(''OFI_level_0'', [Num 2, Num 1]), (''OFI_level_1'', [Num 3, NaN])]\<rparr>"

definition levels2_sum :: table where
  "levels2_sum =
     \<lparr>index = [0, 1],
      columns = [(''OFI_level_0'', [Num 2, Num 1]), (''OFI_level_1'', [Num 3, NaN]),
                 (''OFI_aggregated'', [Num 5, Num 1])]\<rparr>"

definition levels2_avg :: table where
  "levels2_avg =
     \<lparr>index = [0, 1],
      columns = [(''OFI_level_0'', [Num 2, Num 1]), (''OFI_level_1'', [Num 3, NaN]),
                 (''OFI_aggregated'', [Num (5 / 2), Num 1])]\<rparr>"

text \<open>The same two levels in a frame with other labels and one more column.\<close>

definition levels2_other :: table where
  "levels2_other =
     \<lparr>index = [7, 9],
      columns = [(''midpoint'', [Num 100, Num 101]),
                 (''OFI_level_1'', [Num 3, NaN]), (''OFI_level_0'', [Num 2, Num 1])]\<rparr>"

text \<open>The series assigned by \<open>compute_short_term_returns\<close>, from the midpoint series.\<close>

definition future_ret :: "int \<Rightarrow> series \<Rightarrow> series" where
  "future_ret h m = scalar_op cell_sub (series_op cell_div (shift (- h) m) m) (Num 1)"

text \<open>What the return calculator gives on \<open>book3\<close> for the horizons 3 and 0.\<close>

definition book3_h3 :: table where
  "book3_h3 =
     \<lparr>index = [],
      columns =
        [(''system_time'', []), (''midpoint'', []), (''bids_distance_0'', []),
         (''asks_distance_0'', []), (''bids_notional_0'', []), (''asks_notional_0'', []),
         (''future_ret_3'', [])]\<rparr>"

definition book3_h0 :: table where
  "book3_h0 =
     \<lparr>index = [0, 1, 2],
      columns =
        [(''system_time'', [Num 3, Num 1, Num 2]),
         (''midpoint'', [Num 100, Num 101, Num 99]),
         (''bids_distance_0'', [Num (- 1), Num (- 1), Num (- 2)]),
         (''asks_distance_0'', [Num 1, Num 1, Num 2]),
         (''bids_notional_0'', [Num 10, Num 20, Num 30]),
         (''asks_notional_0'', [Num 5, Num 5, Num 5]),
         (''future_ret_0'', [Num 0, Num 0, Num 0])]\<rparr>"
















section \<open>Lemmas\<close>

subsection \<open>Names, frames and series\<close>

lemma digit_val_digit_char: "d < 10 \<Longrightarrow> digit_val (digit_char d) = d"
  by (simp add: digit_val_def digit_char_def)

lemma digits_val_append: "digits_val acc (xs @ ys) = digits_val (digits_val acc xs) ys"
  by (induction xs arbitrary: acc) auto

lemma digits_val_str_nat: "digits_val 0 (str_nat n) = n"
proof (induction n rule: str_nat.induct)
  case (1 n)
  show ?case
  proof (cases "n < 10")
    case True
    then show ?thesis by (subst str_nat.simps) (simp add: digit_val_digit_char)
  next
    case False
    then have "digits_val 0 (str_nat (n div 10)) = n div 10" using 1 by simp
    then show ?thesis using False
      by (subst str_nat.simps) (simp add: digits_val_append digit_val_digit_char)
  qed
qed

lemma str_nat_inj: "str_nat a = str_nat b \<Longrightarrow> a = b"
  by (metis digits_val_str_nat)

lemma get_col_Inr_iff: "get_col df c = Inr v \<longleftrightarrow> map_of (columns df) c = Some v"
  by (simp add: get_col_def split: option.splits)

lemma get_col_set_col:
  "get_col (set_col df c v) c' = (if c' = c then Inr v else get_col df c')"
  by (simp add: get_col_def set_col_def update_conv')

lemma index_set_col: "index (set_col df c v) = index df"
  by (simp add: set_col_def)

lemma nrows_set_col: "nrows (set_col df c v) = nrows df"
  by (simp add: nrows_def set_col_def)

lemma wf_take_rows: "wf_table (take_rows p df)"
  by (auto simp: wf_table_def take_rows_def nrows_def list_all_iff)

lemma nrows_take_rows: "nrows (take_rows p df) = length p"
  by (simp add: nrows_def take_rows_def)

lemma wf_reset_index: "wf_table df \<Longrightarrow> wf_table (reset_index df)"
  by (simp add: wf_table_def reset_index_def nrows_def)

lemma nrows_reset_index: "nrows (reset_index df) = nrows df"
  by (simp add: reset_index_def nrows_def)

lemma get_col_length: "wf_table df \<Longrightarrow> get_col df c = Inr v \<Longrightarrow> length v = nrows df"
  by (auto simp: wf_table_def get_col_Inr_iff list_all_iff dest!: map_of_SomeD)

lemma set_update_subset: "set (AList.update k v al) \<subseteq> insert (k, v) (set al)"
  by (induction al) auto

lemma wf_set_col: "wf_table df \<Longrightarrow> length v = nrows df \<Longrightarrow> wf_table (set_col df c v)"
  using set_update_subset[of c v "columns df"]
  by (auto simp: wf_table_def set_col_def nrows_def list_all_iff)

lemma length_series_op: "length (series_op f xs ys) = min (length xs) (length ys)"
  by (simp add: series_op_def)

lemma nth_series_op:
  "t < length xs \<Longrightarrow> t < length ys \<Longrightarrow> series_op f xs ys ! t = f (xs ! t) (ys ! t)"
  by (simp add: series_op_def)

lemma length_scalar_op: "length (scalar_op f xs c) = length xs"
  by (simp add: scalar_op_def)

lemma nth_scalar_op: "t < length xs \<Longrightarrow> scalar_op f xs c ! t = f (xs ! t) c"
  by (simp add: scalar_op_def)

lemma length_shift: "length (shift k xs) = length xs"
  by (auto simp: shift_def Let_def)

lemma nth_shift_one:
  "t < length xs \<Longrightarrow> shift 1 xs ! t = (if t = 0 then NaN else xs ! (t - 1))"
  by (cases xs) (auto simp: shift_def Let_def nth_append min_def nth_Cons')


lemma ofi_level_name_inj: "ofi_level_name a = ofi_level_name b \<Longrightarrow> a = b"
  by (simp add: ofi_level_name_def str_nat_inj)

lemma length_ofi_formula:
  "length bp = n \<Longrightarrow> length ap = n \<Longrightarrow> length bs = n \<Longrightarrow> length as = n \<Longrightarrow>
   length (ofi_formula bp ap bs as) = n"
  by (simp add: ofi_formula_def Let_def length_series_op length_scalar_op length_shift)

lemma nth_ofi_formula:
  assumes "length bp = n" "length ap = n" "length bs = n" "length as = n" "t < n"
  shows "ofi_formula bp ap bs as ! t =
     cell_sub
       (cell_div (cell_mul (cell_sub (bp ! t) (if t = 0 then NaN else bp ! (t - 1)))
                           (cell_add (bs ! t) (if t = 0 then NaN else bs ! (t - 1)))) (Num 2))
       (cell_div (cell_mul (cell_sub (ap ! t) (if t = 0 then NaN else ap ! (t - 1)))
                           (cell_add (as ! t) (if t = 0 then NaN else as ! (t - 1)))) (Num 2))"
  using assms
  by (simp add: ofi_formula_def Let_def length_series_op length_scalar_op length_shift
      nth_series_op nth_scalar_op nth_shift_one)

lemma ofi_level_set_col: "ofi_level (set_col df (ofi_level_name l) v) l' = ofi_level df l'"
  by (simp add: ofi_level_def reconstruct_price_def reconstruct_size_def get_col_set_col
      ofi_level_name_def Let_def cong: sum.case_cong)

lemma ofi_level_InrD:
  assumes "ofi_level df l = Inr v"
  shows "\<exists>m bd ad bs as.
           get_col df ''midpoint'' = Inr m \<and>
           get_col df (''bids_distance_'' @ str_nat l) = Inr bd \<and>
           get_col df (''asks_distance_'' @ str_nat l) = Inr ad \<and>
           get_col df (''bids_notional_'' @ str_nat l) = Inr bs \<and>
           get_col df (''asks_notional_'' @ str_nat l) = Inr as \<and>
           v = ofi_formula (series_op cell_add m bd) (series_op cell_add m ad) bs as"
  using assms
  by (auto simp: ofi_level_def reconstruct_price_def reconstruct_size_def Let_def
      split: sum.splits)


lemma length_ofi_level:
  assumes "wf_table df" "ofi_level df l = Inr v"
  shows "length v = nrows df"
proof -
  from ofi_level_InrD[OF assms(2)] obtain m bd ad bs as where
    g: "get_col df ''midpoint'' = Inr m"
      "get_col df (''bids_distance_'' @ str_nat l) = Inr bd"
      "get_col df (''asks_distance_'' @ str_nat l) = Inr ad"
      "get_col df (''bids_notional_'' @ str_nat l) = Inr bs"
      "get_col df (''asks_notional_'' @ str_nat l) = Inr as"
    and v: "v = ofi_formula (series_op cell_add m bd) (series_op cell_add m ad) bs as"
    by blast
  from g have "length m = nrows df" "length bd = nrows df" "length ad = nrows df"
    "length bs = nrows df" "length as = nrows df"
    using get_col_length[OF assms(1)] by blast+
  then show ?thesis unfolding v
    by (intro length_ofi_formula) (simp_all add: length_series_op)
qed

subsection \<open>The loop over the levels\<close>


lemma ofi_levels_index: "ofi_levels df ls = Inr df' \<Longrightarrow> index df' = index df"
  by (induction df ls rule: ofi_levels.induct) (auto simp: index_set_col split: sum.splits)

lemma ofi_levels_other:
  "ofi_levels df ls = Inr df' \<Longrightarrow> c \<notin> ofi_level_name ` set ls \<Longrightarrow> get_col df' c = get_col df c"
  by (induction df ls rule: ofi_levels.induct)
     (auto simp: get_col_set_col split: sum.splits)

lemma ofi_levels_level:
  "ofi_levels df ls = Inr df' \<Longrightarrow> l \<in> set ls \<Longrightarrow>
   \<exists>v. ofi_level df l = Inr v \<and> get_col df' (ofi_level_name l) = Inr v"
proof (induction df ls rule: ofi_levels.induct)
  case (1 df)
  then show ?case by simp
next
  case (2 df level rest)
  from "2.prems"(1) obtain v where v: "ofi_level df level = Inr v"
    and r: "ofi_levels (set_col df (ofi_level_name level) v) rest = Inr df'"
    by (auto split: sum.splits)
  show ?case
  proof (cases "l \<in> set rest")
    case True
    with "2.IH"[OF v r] show ?thesis by (simp add: ofi_level_set_col)
  next
    case False
    with "2.prems"(2) have l: "l = level" by simp
    have "ofi_level_name level \<notin> ofi_level_name ` set rest"
      using False l by (auto dest: ofi_level_name_inj)
    from ofi_levels_other[OF r this] show ?thesis using v l by (simp add: get_col_set_col)
  qed
qed


lemma cell_add_NaN_right: "cell_add x NaN = NaN"
  by (cases x) simp_all

lemma cell_mul_NaN_right: "cell_mul x NaN = NaN"
  by (cases x) simp_all

lemma cell_sub_NaN_right: "cell_sub x NaN = NaN"
  by (simp add: cell_sub_def cell_add_NaN_right)

lemma cell_sub_NaN_left: "cell_sub NaN x = NaN"
  by (simp add: cell_sub_def)


lemma get_col_fillna:
  "get_col df c = Inr v \<Longrightarrow> get_col (fillna val df) c = Inr (map (\<lambda>x. if isna x then val else x) v)"
  by (simp add: get_col_Inr_iff fillna_def map_of_map)

lemma index_fillna: "index (fillna val df) = index df"
  by (simp add: fillna_def)

lemma get_col_reset_index: "get_col (reset_index df) c = get_col df c"
  by (simp add: get_col_def reset_index_def)

lemma sort_values_InrD:
  "sort_values srt by df = Inr s \<Longrightarrow>
   \<exists>k. get_col df by = Inr k \<and> s = take_rows (nargsort srt k) df"
  by (auto simp: sort_values_def split: sum.splits)

lemma wf_sort_values: "sort_values srt by df = Inr s \<Longrightarrow> wf_table s"
  by (auto dest!: sort_values_InrD simp: wf_take_rows)

lemma compute_ofi_InrD:
  assumes "compute_ofi_for_btc srt df L = Inr out"
  shows "\<exists>s df2. sort_values srt ''system_time'' df = Inr s \<and>
           ofi_levels (reset_index s) (range_py L) = Inr df2 \<and> out = fillna (Num 0) df2"
  using assms by (auto simp: compute_ofi_for_btc_def split: sum.splits)

lemma compute_ofi_level_col:
  assumes "compute_ofi_for_btc srt df L = Inr out"
    and "sort_values srt ''system_time'' df = Inr s" and "i < nat L"
  shows "\<exists>v. ofi_level s i = Inr v \<and> length v = nrows s \<and> nrows out = nrows s \<and>
           get_col out (ofi_level_name i) = Inr (map (\<lambda>x. if isna x then Num 0 else x) v)"
proof -
  from compute_ofi_InrD[OF assms(1)] assms(2) obtain df2 where
    l: "ofi_levels (reset_index s) (range_py L) = Inr df2" and out: "out = fillna (Num 0) df2"
    by auto
  have wf: "wf_table (reset_index s)" using assms(2) by (simp add: wf_sort_values wf_reset_index)
  have "i \<in> set (range_py L)" using assms(3) by (simp add: range_py_def)
  from ofi_levels_level[OF l this] obtain v where
    v: "ofi_level (reset_index s) i = Inr v" "get_col df2 (ofi_level_name i) = Inr v" by blast
  have same: "ofi_level (reset_index s) i = ofi_level s i"
    by (simp add: ofi_level_def reconstruct_price_def reconstruct_size_def get_col_reset_index
        cong: sum.case_cong)
  have "length v = nrows s" using length_ofi_level[OF wf v(1)] by (simp add: nrows_reset_index)
  moreover have "nrows out = nrows s"
    using ofi_levels_index[OF l] by (simp add: out nrows_def index_fillna reset_index_def)
  ultimately show ?thesis using v same by (auto simp: out get_col_fillna)
qed


subsection \<open>Selecting columns\<close>

lemma those_eq_Some: "those xs = Some ys \<longleftrightarrow> xs = map Some ys"
  by (induction xs arbitrary: ys) (auto split: option.splits)

lemma those_map_Some: "those (map Some ys) = Some ys"
  by (simp add: those_eq_Some)

lemma select_cols_Inr_iff:
  "select_cols df names = Inr vs \<longleftrightarrow> map (map_of (columns df)) names = map Some vs"
  by (auto simp: select_cols_def those_eq_Some those_map_Some split: option.splits)

lemma select_cols_Inr_nth:
  assumes "select_cols df names = Inr vs"
  shows "length vs = length names"
    and "i < length names \<Longrightarrow> get_col df (names ! i) = Inr (vs ! i)"
proof -
  have eq: "map (map_of (columns df)) names = map Some vs"
    using assms by (simp add: select_cols_Inr_iff)
  from arg_cong[OF eq, of length] show l: "length vs = length names" by simp
  assume i: "i < length names"
  from arg_cong[OF eq, of "\<lambda>xs. xs ! i"] i l
  show "get_col df (names ! i) = Inr (vs ! i)" by (simp add: get_col_Inr_iff)
qed

lemma select_cols_cong:
  assumes "\<forall>c \<in> set names. get_col df1 c = get_col df2 c"
  shows "select_cols df1 names = select_cols df2 names"
proof -
  have "map_of (columns df1) c = map_of (columns df2) c" if "c \<in> set names" for c
    using bspec[OF assms that]
    by (cases "map_of (columns df1) c"; cases "map_of (columns df2) c") (simp_all add: get_col_def)
  then have m: "map (map_of (columns df1)) names = map (map_of (columns df2)) names"
    and f: "filter (\<lambda>c. map_of (columns df1) c = None) names =
      filter (\<lambda>c. map_of (columns df2) c = None) names"
    by (auto intro: filter_cong)
  show ?thesis unfolding select_cols_def m f by (rule refl)
qed

lemma select_cols_Inl:
  "select_cols df names = Inl e \<Longrightarrow>
   e = KeyError (filter (\<lambda>c. map_of (columns df) c = None) names) \<and>
   (\<exists>c \<in> set names. map_of (columns df) c = None)"
proof -
  assume a: "select_cols df names = Inl e"
  then have n: "those (map (map_of (columns df)) names) = None"
    and e: "e = KeyError (filter (\<lambda>c. map_of (columns df) c = None) names)"
    by (auto simp: select_cols_def split: option.splits)
  have "\<exists>c \<in> set names. map_of (columns df) c = None"
  proof (rule ccontr)
    assume "\<not> ?thesis"
    then have "map (map_of (columns df)) names = map Some (map (\<lambda>c. the (map_of (columns df) c)) names)"
      by auto
    then have "those (map (map_of (columns df)) names) \<noteq> None"
      using those_eq_Some by (metis option.distinct(1))
    with n show False by simp
  qed
  with e show ?thesis by simp
qed

lemma integrate_Inr_select:
  assumes "integrate_multi_level_ofi pca df L method = Inr out"
  shows "\<exists>m. select_cols df (map ofi_level_name (range_py L)) = Inr m"
  using assms by (auto simp: integrate_multi_level_ofi_def Let_def split: sum.splits)

subsection \<open>Sums and means of a row\<close>

lemma nansum_snoc: "nansum (xs @ [y]) = cell_add (nansum xs) (if isna y then Num 0 else y)"
  by (simp add: nansum_def)

lemma nansum_upt:
  "\<forall>i<n. c i = NaN \<or> c i = Num (x i) \<Longrightarrow>
   nansum (map c [0..<n]) = Num (\<Sum>i<n. if c i = NaN then 0 else x i)"
proof (induction n)
  case 0
  then show ?case by (simp add: nansum_def)
next
  case (Suc n)
  then have ih: "nansum (map c [0..<n]) = Num (\<Sum>i<n. if c i = NaN then 0 else x i)" by simp
  from Suc.prems have "c n = NaN \<or> c n = Num (x n)" by simp
  then show ?case by (auto simp: nansum_snoc ih isna_def)
qed

lemma count_present_upt:
  "length (filter (\<lambda>x. \<not> isna x) (map c [0..<n])) = card {i. i < n \<and> c i \<noteq> NaN}"
proof -
  have "card {i. i < n \<and> c i \<noteq> NaN} = card (set (filter (\<lambda>i. c i \<noteq> NaN) [0..<n]))"
    by (rule arg_cong[where f = card]) auto
  also have "\<dots> = length (filter (\<lambda>i. c i \<noteq> NaN) [0..<n])"
    by (rule distinct_card) simp
  also have "\<dots> = length (filter (\<lambda>x. \<not> isna x) (map c [0..<n]))"
    by (simp add: filter_map isna_def comp_def)
  finally show ?thesis by simp
qed

lemma nanmean_upt:
  assumes "\<forall>i<n. c i = NaN \<or> c i = Num (x i)"
  shows "nanmean (map c [0..<n]) =
     (let k = card {i. i < n \<and> c i \<noteq> NaN}
      in if k = 0 then NaN else Num ((\<Sum>i<n. if c i = NaN then 0 else x i) / real k))"
  unfolding nanmean_def count_present_upt nansum_upt[OF assms]
  by (simp add: Let_def)

lemma select_cols_upt:
  assumes "select_cols df (map f [0..<n]) = Inr m"
    and "\<forall>i<n. get_col df (f i) = Inr (col i)"
  shows "m = map col [0..<n]"
proof (rule nth_equalityI)
  show "length m = length (map col [0..<n])"
    using select_cols_Inr_nth(1)[OF assms(1)] by simp
next
  fix i assume "i < length m"
  then have i: "i < n" using select_cols_Inr_nth(1)[OF assms(1)] by simp
  with select_cols_Inr_nth(2)[OF assms(1), of i] assms(2)
  show "m ! i = map col [0..<n] ! i" by simp
qed

subsection \<open>Taking and dropping rows\<close>





lemma nrows_dropna: "nrows (dropna df) = length (filter (row_complete df) [0..<nrows df])"
  by (simp add: dropna_def nrows_take_rows)

lemma update_member: "(k, v) \<in> set (AList.update k v al)"
  by (induction al) auto

lemma row_complete_set_col_D:
  "row_complete (set_col df c v) r \<Longrightarrow> \<not> isna (v ! r)"
proof -
  assume a: "row_complete (set_col df c v) r"
  have "(c, v) \<in> set (AList.update c v (columns df))" by (rule update_member)
  with a show ?thesis by (auto simp: row_complete_def set_col_def list_all_iff)
qed

subsection \<open>The return series\<close>

lemma returns_unfold:
  "get_col df ''midpoint'' = Inr m \<Longrightarrow>
   compute_short_term_returns df h =
     Inr (dropna (set_col df (''future_ret_'' @ str_int h) (future_ret h m)))"
  by (simp add: compute_short_term_returns_def future_ret_def)


lemma nth_future_ret:
  "t < length m \<Longrightarrow>
   future_ret h m ! t = cell_sub (cell_div (shift (- h) m ! t) (m ! t)) (Num 1)"
  by (simp add: future_ret_def nth_scalar_op nth_series_op length_series_op length_shift)

lemma shift_all_NaN:
  assumes "int (length xs) \<le> k \<or> k \<le> - int (length xs)" and "t < length xs"
  shows "shift k xs ! t = NaN"
  using assms by (auto simp: shift_def Let_def nth_append min_def)

lemma future_ret_far:
  assumes "int (length m) \<le> h \<or> h \<le> - int (length m)" and "t < length m"
  shows "future_ret h m ! t = NaN"
proof -
  have "shift (- h) m ! t = NaN" using assms by (intro shift_all_NaN) auto
  then show ?thesis using assms(2) by (simp add: nth_future_ret cell_sub_NaN_left)
qed




subsection \<open>Sorting\<close>

















subsection \<open>The loader\<close>






subsection \<open>Frames without missing values\<close>




subsection \<open>The example frames, evaluated\<close>

lemma book3_compute: "compute_ofi_for_btc stable_argsort book3 1 = Inr book3_ofi"
  by code_simp


lemma levels2_sum_eval: "integrate_multi_level_ofi no_pca levels2 2 ''sum'' = Inr levels2_sum"
  by code_simp

lemma levels2_avg_eval: "integrate_multi_level_ofi no_pca levels2 2 ''avg'' = Inr levels2_avg"
  by code_simp

lemma book3_wf: "wf_table book3"
  by code_simp

lemma book3_midpoint: "get_col book3 ''midpoint'' = Inr [Num 100, Num 101, Num 99]"
  by code_simp








section \<open>The claims\<close>




text \<open>
  C2. Whatever the input frame, when \<open>compute_ofi_for_btc\<close> returns a frame with at
  least one row, the column \<open>OFI_level_i\<close> of that frame holds 0 in its first row, for
  every level \<open>i\<close> below \<open>max_levels\<close>: the first row has no predecessor, the
  shifted series hold NaN there, the formula gives NaN and \<open>fillna(0)\<close> writes 0.
\<close>

theorem first_row_ofi_zero:
  assumes "compute_ofi_for_btc argsort df max_levels = Inr out"
    and "i < nat max_levels" and "0 < nrows out"
  shows "\<exists>v. get_col out (ofi_level_name i) = Inr v \<and> length v = nrows out \<and> v ! 0 = Num 0"
proof -
  from compute_ofi_InrD[OF assms(1)] obtain s where
    s: "sort_values argsort ''system_time'' df = Inr s" by blast
  from compute_ofi_level_col[OF assms(1) s assms(2)] obtain v where
    v: "ofi_level s i = Inr v" "length v = nrows s" "nrows out = nrows s"
      "get_col out (ofi_level_name i) = Inr (map (\<lambda>x. if isna x then Num 0 else x) v)"
    by blast
  from ofi_level_InrD[OF v(1)] obtain m bd ad bs as where
    g: "get_col s ''midpoint'' = Inr m"
      "get_col s (''bids_distance_'' @ str_nat i) = Inr bd"
      "get_col s (''asks_distance_'' @ str_nat i) = Inr ad"
      "get_col s (''bids_notional_'' @ str_nat i) = Inr bs"
      "get_col s (''asks_notional_'' @ str_nat i) = Inr as"
    and vf: "v = ofi_formula (series_op cell_add m bd) (series_op cell_add m ad) bs as"
    by blast
  have wf: "wf_table s" using s by (rule wf_sort_values)
  have len: "length m = nrows s" "length bd = nrows s" "length ad = nrows s"
    "length bs = nrows s" "length as = nrows s"
    using g get_col_length[OF wf] by blast+
  have pos: "0 < nrows s" using assms(3) v(3) by simp
  have "v ! 0 = NaN"
    unfolding vf using len pos
    by (subst nth_ofi_formula[where n = "nrows s"])
       (simp_all add: length_series_op cell_sub_NaN_right cell_mul_NaN_right
          cell_add_NaN_right cell_sub_NaN_left)
  then show ?thesis using v pos by (simp add: isna_def)
qed

theorem first_row_ofi_zero_witness:
  "compute_ofi_for_btc stable_argsort book3 1 = Inr book3_ofi \<and> (0::nat) < nat 1 \<and>
   0 < nrows book3_ofi \<and>
   (\<exists>v. get_col book3_ofi (ofi_level_name 0) = Inr v \<and> length v = nrows book3_ofi \<and>
        v ! 0 = Num 0)"
proof -
  have h1: "compute_ofi_for_btc stable_argsort book3 1 = Inr book3_ofi"
    by (rule book3_compute)
  have h2: "(0::nat) < nat 1" by simp
  have h3: "0 < nrows book3_ofi" by (simp add: nrows_def book3_ofi_def)
  from first_row_ofi_zero[OF h1 h2 h3] h1 h2 h3 show ?thesis by blast
qed

text \<open>
  C3. On a frame that carries the columns \<open>OFI_level_0\<close> to \<open>OFI_level_(L-1)\<close>, at a row
  \<open>t\<close> whose per-level values are numbers or missing, \<open>sum\<close> stores the sum of the
  values that are present and \<open>avg\<close> their mean, NaN when none is present: both skip
  missing values. At a row with no missing value these are the sum and, for \<open>L > 0\<close>, the
  mean over all the levels.
\<close>

theorem aggregated_sum_avg:
  assumes "integrate_multi_level_ofi pca df max_levels method = Inr out"
    and "t < nrows df"
    and "\<forall>i < nat max_levels. get_col df (ofi_level_name i) = Inr (col i)"
    and "\<forall>i < nat max_levels. col i ! t = NaN \<or> col i ! t = Num (x i)"
  shows "(method = ''sum'' \<longrightarrow>
           (\<exists>a. get_col out ''OFI_aggregated'' = Inr a \<and> length a = nrows df \<and>
              a ! t = Num (\<Sum>i<nat max_levels. if col i ! t = NaN then 0 else x i))) \<and>
         (method = ''avg'' \<longrightarrow>
           (\<exists>a. get_col out ''OFI_aggregated'' = Inr a \<and> length a = nrows df \<and>
              a ! t = (let k = card {i. i < nat max_levels \<and> col i ! t \<noteq> NaN}
                       in if k = 0 then NaN
                          else Num ((\<Sum>i<nat max_levels. if col i ! t = NaN then 0 else x i) / real k))))"
proof -
  let ?n = "nat max_levels"
  from integrate_Inr_select[OF assms(1)] obtain m where
    m: "select_cols df (map ofi_level_name (range_py max_levels)) = Inr m" by blast
  then have "m = map col [0..<?n]"
    using assms(3) by (intro select_cols_upt[where f = ofi_level_name]) (simp_all add: range_py_def)
  then have row: "row_at m t = map (\<lambda>i. col i ! t) [0..<?n]"
    by (simp add: row_at_def comp_def)
  have s: "nansum (row_at m t) = Num (\<Sum>i<?n. if col i ! t = NaN then 0 else x i)"
    unfolding row using assms(4) by (intro nansum_upt) simp
  have a: "nanmean (row_at m t) =
     (let k = card {i. i < ?n \<and> col i ! t \<noteq> NaN}
      in if k = 0 then NaN else Num ((\<Sum>i<?n. if col i ! t = NaN then 0 else x i) / real k))"
    unfolding row using assms(4) by (intro nanmean_upt) simp
  show ?thesis
  proof (intro conjI impI)
    assume "method = ''sum''"
    then have "get_col out ''OFI_aggregated'' = Inr (map (\<lambda>t. nansum (row_at m t)) [0..<nrows df])"
      using assms(1) m by (auto simp: integrate_multi_level_ofi_def get_col_set_col)
    then show "\<exists>a. get_col out ''OFI_aggregated'' = Inr a \<and> length a = nrows df \<and>
              a ! t = Num (\<Sum>i<?n. if col i ! t = NaN then 0 else x i)"
      using assms(2) s by simp
  next
    assume "method = ''avg''"
    then have "get_col out ''OFI_aggregated'' = Inr (map (\<lambda>t. nanmean (row_at m t)) [0..<nrows df])"
      using assms(1) m by (auto simp: integrate_multi_level_ofi_def get_col_set_col)
    then show "\<exists>a. get_col out ''OFI_aggregated'' = Inr a \<and> length a = nrows df \<and>
              a ! t = (let k = card {i. i < ?n \<and> col i ! t \<noteq> NaN}
                       in if k = 0 then NaN
                          else Num ((\<Sum>i<?n. if col i ! t = NaN then 0 else x i) / real k))"
      using assms(2) a by simp
  qed
qed

theorem aggregated_sum_avg_witness:
  "integrate_multi_level_ofi no_pca levels2 2 ''sum'' = Inr levels2_sum \<and>
   integrate_multi_level_ofi no_pca levels2 2 ''avg'' = Inr levels2_avg \<and>
   0 < nrows levels2 \<and>
   get_col levels2 (ofi_level_name 0) = Inr [Num 2, Num 1] \<and>
   get_col levels2 (ofi_level_name 1) = Inr [Num 3, NaN] \<and>
   (\<exists>a. get_col levels2_sum ''OFI_aggregated'' = Inr a \<and> length a = nrows levels2 \<and> a ! 0 = Num 5) \<and>
   (\<exists>a. get_col levels2_avg ''OFI_aggregated'' = Inr a \<and> length a = nrows levels2 \<and>
        a ! 0 = Num (5 / 2))"
proof -
  define col :: "nat \<Rightarrow> series" where "col i = (if i = 0 then [Num 2, Num 1] else [Num 3, NaN])" for i
  define x :: "nat \<Rightarrow> real" where "x i = (if i = 0 then 2 else 3)" for i
  have t: "0 < nrows levels2" by (simp add: nrows_def levels2_def)
  have g0: "get_col levels2 (ofi_level_name 0) = Inr [Num 2, Num 1]" by code_simp
  have g1: "get_col levels2 (ofi_level_name 1) = Inr [Num 3, NaN]" by code_simp
  have cols: "\<forall>i < nat 2. get_col levels2 (ofi_level_name i) = Inr (col i)"
    using g0 g1 by (auto dest!: less_2_cases simp: col_def)
  have vals: "\<forall>i < nat 2. col i ! 0 = NaN \<or> col i ! 0 = Num (x i)"
    by (auto dest!: less_2_cases simp: col_def x_def)
  have set2: "{i. i < nat 2 \<and> col i ! 0 \<noteq> NaN} = {0, 1}"
    by (auto dest!: less_2_cases simp: col_def)
  have sum2: "(\<Sum>i<nat 2. if col i ! 0 = NaN then 0 else x i) = 5"
    by (simp add: col_def x_def numeral_2_eq_2)
  from aggregated_sum_avg[OF levels2_sum_eval t cols vals]
  have s: "\<exists>a. get_col levels2_sum ''OFI_aggregated'' = Inr a \<and> length a = nrows levels2 \<and> a ! 0 = Num 5"
    unfolding sum2 by simp
  from aggregated_sum_avg[OF levels2_avg_eval t cols vals]
  have a: "\<exists>a. get_col levels2_avg ''OFI_aggregated'' = Inr a \<and> length a = nrows levels2 \<and>
        a ! 0 = Num (5 / 2)"
    unfolding sum2 set2 by simp
  from levels2_sum_eval levels2_avg_eval t g0 g1 s a show ?thesis by blast
qed

text \<open>
  At a row with a missing level the stored value is not the sum or mean over all the
  levels: in \<open>two_levels\<close> level 0 is missing and level 1 is 3. Both methods store 3;
  the sum over both levels is NaN, as is its half, and with the missing value counted as
  0 the mean would be 3/2.
\<close>

theorem aggregation_skips_missing:
  "integrate_multi_level_ofi no_pca two_levels 2 ''sum'' = Inr two_levels_agg \<and>
   integrate_multi_level_ofi no_pca two_levels 2 ''avg'' = Inr two_levels_agg \<and>
   get_col two_levels_agg ''OFI_aggregated'' = Inr [Num 3] \<and>
   cell_add NaN (Num 3) = NaN \<and> cell_div (cell_add NaN (Num 3)) (Num 2) = NaN \<and>
   cell_div (cell_add (Num 0) (Num 3)) (Num 2) = Num (3 / 2)"
  by code_simp

text \<open>
  C4. For a method other than \<open>PCA\<close>, \<open>sum\<close> and \<open>avg\<close> the function raises and
  leaves the frame as it was, so no \<open>OFI_aggregated\<close> column appears and nothing is
  computed as for \<open>sum\<close>. The per-level columns are selected before the method is
  looked at: a frame that carries them all gets the ValueError of the last branch, a frame
  that lacks one gets the KeyError of the selection.
\<close>

theorem unknown_method_raises:
  assumes "method \<noteq> ''PCA''" and "method \<noteq> ''sum''" and "method \<noteq> ''avg''"
  shows "((\<forall>i < nat max_levels. ofi_level_name i \<in> fst ` set (columns df)) \<longrightarrow>
            integrate_multi_level_ofi pca df max_levels method =
              Inl (ValueError ''Unknown integration method. Choose from ['PCA','sum','avg'].'', df)) \<and>
         ((\<exists>i < nat max_levels. ofi_level_name i \<notin> fst ` set (columns df)) \<longrightarrow>
            integrate_multi_level_ofi pca df max_levels method =
              Inl (KeyError (filter (\<lambda>c. c \<notin> fst ` set (columns df))
                               (map ofi_level_name (range_py max_levels))), df))"
proof -
  let ?names = "map ofi_level_name (range_py max_levels)"
  have set_names: "set ?names = ofi_level_name ` {i. i < nat max_levels}"
    by (auto simp: range_py_def)
  show ?thesis
  proof (cases "select_cols df ?names")
    case (Inl e)
    from select_cols_Inl[OF Inl] have
      e: "e = KeyError (filter (\<lambda>c. c \<notin> fst ` set (columns df)) ?names)"
      and ex: "\<exists>c \<in> set ?names. c \<notin> fst ` set (columns df)"
      by (simp_all add: map_of_eq_None_iff)
    from ex have "\<not> (\<forall>i < nat max_levels. ofi_level_name i \<in> fst ` set (columns df))"
      unfolding set_names by blast
    then show ?thesis using Inl e by (simp add: integrate_multi_level_ofi_def)
  next
    case (Inr m)
    have "ofi_level_name i \<in> fst ` set (columns df)" if "i < nat max_levels" for i
    proof -
      have "i < length ?names" "?names ! i = ofi_level_name i"
        using that by (simp_all add: range_py_def)
      with select_cols_Inr_nth(2)[OF Inr, of i]
      have "map_of (columns df) (ofi_level_name i) = Some (m ! i)"
        by (simp add: get_col_Inr_iff)
      then show ?thesis by (metis map_of_eq_None_iff option.distinct(1))
    qed
    then have "\<not> (\<exists>i < nat max_levels. ofi_level_name i \<notin> fst ` set (columns df))" by blast
    then show ?thesis using Inr assms by (simp add: integrate_multi_level_ofi_def)
  qed
qed

theorem unknown_method_raises_witness:
  "''median'' \<noteq> ''PCA'' \<and> ''median'' \<noteq> ''sum'' \<and> ''median'' \<noteq> ''avg'' \<and>
   ofi_level_name 0 \<in> fst ` set (columns book3_ofi) \<and>
   integrate_multi_level_ofi no_pca book3_ofi 1 ''median'' =
     Inl (ValueError ''Unknown integration method. Choose from ['PCA','sum','avg'].'', book3_ofi)"
proof -
  have m: "''median'' \<noteq> ''PCA''" "''median'' \<noteq> ''sum''" "''median'' \<noteq> ''avg''" by simp_all
  have c: "ofi_level_name 0 \<in> fst ` set (columns book3_ofi)" by code_simp
  then have "\<forall>i < nat 1. ofi_level_name i \<in> fst ` set (columns book3_ofi)" by simp
  with unknown_method_raises[OF m, of 1 book3_ofi no_pca] m c show ?thesis by blast
qed

text \<open>
  So the error is not the one for a bad method on every frame: \<open>book3\<close> has no
  \<open>OFI_level_0\<close> column, and with the method \<open>median\<close> the KeyError comes first.
\<close>

theorem unknown_method_key_error_first:
  "integrate_multi_level_ofi no_pca book3 1 ''median'' = Inl (KeyError [''OFI_level_0''], book3)"
  by code_simp

text \<open>
  C5. The return calculator checks nothing about the horizon. On a frame with a midpoint
  column it returns for every integer \<open>h\<close>, so it raises neither an error for a bad
  parameter nor an index error; when \<open>h\<close> reaches the number of rows, forwards or
  backwards, every return is NaN and the frame returned has no rows.
\<close>

theorem returns_never_raise:
  assumes "wf_table df" and "get_col df ''midpoint'' = Inr m"
  shows "\<exists>out. compute_short_term_returns df h = Inr out \<and>
           (int (nrows df) \<le> h \<or> h \<le> - int (nrows df) \<longrightarrow> nrows out = 0)"
proof -
  let ?df = "set_col df (''future_ret_'' @ str_int h) (future_ret h m)"
  have len: "length m = nrows df" using assms by (rule get_col_length)
  have "nrows (dropna ?df) = 0" if far: "int (nrows df) \<le> h \<or> h \<le> - int (nrows df)"
  proof -
    have "\<not> row_complete ?df r" if "r < nrows df" for r
    proof
      assume "row_complete ?df r"
      then have "\<not> isna (future_ret h m ! r)" by (rule row_complete_set_col_D)
      moreover have "future_ret h m ! r = NaN"
        using far that len by (intro future_ret_far) simp_all
      ultimately show False by (simp add: isna_def)
    qed
    then have "filter (row_complete ?df) [0..<nrows ?df] = []"
      by (simp add: filter_empty_conv nrows_set_col)
    then show ?thesis by (simp add: nrows_dropna)
  qed
  then show ?thesis using returns_unfold[OF assms(2)] by simp
qed

theorem returns_never_raise_witness:
  "wf_table book3 \<and> get_col book3 ''midpoint'' = Inr [Num 100, Num 101, Num 99] \<and>
   int (nrows book3) \<le> 3 \<and>
   (\<exists>out. compute_short_term_returns book3 3 = Inr out \<and> nrows out = 0)"
proof -
  have n: "int (nrows book3) \<le> 3" by (simp add: nrows_def book3_def)
  with returns_never_raise[OF book3_wf book3_midpoint, of 3]
  have "\<exists>out. compute_short_term_returns book3 3 = Inr out \<and> nrows out = 0" by auto
  with book3_wf book3_midpoint n show ?thesis by blast
qed

text \<open>
  On the three rows of \<open>book3\<close> the horizon 3 gives the empty frame and the horizon 0
  gives all three rows with a return of 0: a frame is returned, nothing is raised.
\<close>

theorem returns_out_of_range_horizon:
  "compute_short_term_returns book3 3 = Inr book3_h3 \<and>
   compute_short_term_returns book3 0 = Inr book3_h0"
  by code_simp










text \<open>
  C9. With \<open>sum\<close> or \<open>avg\<close> the aggregated column is a function of the per-level
  columns and the number of rows alone: when a run on one frame returns, a run on any frame
  with the same number of rows and the same per-level columns returns too, with the same
  \<open>OFI_aggregated\<close> column, whatever else the two frames hold and whatever projection
  is at hand. Two runs on equal frames are the case of one frame taken twice.
\<close>

theorem aggregation_deterministic:
  assumes "method = ''sum'' \<or> method = ''avg''"
    and "nrows df1 = nrows df2"
    and "\<forall>i < nat max_levels. get_col df1 (ofi_level_name i) = get_col df2 (ofi_level_name i)"
    and "integrate_multi_level_ofi pca1 df1 max_levels method = Inr out1"
  shows "\<exists>out2. integrate_multi_level_ofi pca2 df2 max_levels method = Inr out2 \<and>
           get_col out2 ''OFI_aggregated'' = get_col out1 ''OFI_aggregated''"
proof -
  let ?names = "map ofi_level_name (range_py max_levels)"
  have "\<forall>c \<in> set ?names. get_col df1 c = get_col df2 c"
    using assms(3) by (auto simp: range_py_def)
  then have sel: "select_cols df1 ?names = select_cols df2 ?names" by (rule select_cols_cong)
  from integrate_Inr_select[OF assms(4)] obtain m where m: "select_cols df1 ?names = Inr m"
    by blast
  from assms(1) show ?thesis
  proof
    assume "method = ''sum''"
    then show ?thesis using assms(2,4) m sel
      by (auto simp: integrate_multi_level_ofi_def get_col_set_col)
  next
    assume "method = ''avg''"
    then show ?thesis using assms(2,4) m sel
      by (auto simp: integrate_multi_level_ofi_def get_col_set_col)
  qed
qed

theorem aggregation_deterministic_witness:
  "nrows levels2 = nrows levels2_other \<and>
   get_col levels2 (ofi_level_name 0) = get_col levels2_other (ofi_level_name 0) \<and>
   get_col levels2 (ofi_level_name 1) = get_col levels2_other (ofi_level_name 1) \<and>
   integrate_multi_level_ofi no_pca levels2 2 ''avg'' = Inr levels2_avg \<and>
   (\<exists>out2. integrate_multi_level_ofi no_pca levels2_other 2 ''avg'' = Inr out2 \<and>
      get_col out2 ''OFI_aggregated'' = get_col levels2_avg ''OFI_aggregated'')"
proof -
  have n: "nrows levels2 = nrows levels2_other" by (simp add: nrows_def levels2_def levels2_other_def)
  have g0: "get_col levels2 (ofi_level_name 0) = get_col levels2_other (ofi_level_name 0)" by code_simp
  have g1: "get_col levels2 (ofi_level_name 1) = get_col levels2_other (ofi_level_name 1)" by code_simp
  have cols: "\<forall>i < nat 2. get_col levels2 (ofi_level_name i) = get_col levels2_other (ofi_level_name i)"
    using g0 g1 by (auto dest!: less_2_cases)
  have m: "''avg'' = ''sum'' \<or> ''avg'' = ''avg''" by simp
  from aggregation_deterministic[OF m n cols levels2_avg_eval, of no_pca] n g0 g1 levels2_avg_eval
  show ?thesis by blast
qed



end
